theory Spec2Isabelle
  imports Main "HOL-Library.Word"
begin

unbundle bit_operations_syntax

section \<open>Rendezvous hashing: the embedding of rendezvous-hasher.h\<close>

text \<open>
  The header is modelled in its default configuration: \<open>RENDEZVOUS_HASHER_ID_T\<close> and
  \<open>RENDEZVOUS_HASHER_HASH_T\<close> are \<open>unsigned int\<close>, taken as 32-bit words (the built-in hash
  is named \<open>..._uint32\<close>), and \<open>RENDEZVOUS_HASHER_HASH\<close> is the built-in hash.

  The singly linked list hanging off \<open>rh->nodes\<close> is the list of the ids of its cells, head
  first; \<open>NULL\<close> is the empty list. A \<open>RendezvousHasher *\<close> argument is an option: \<open>None\<close>
  is the null pointer, \<open>Some rh\<close> points to the structure \<open>rh\<close>. Every operation returns
  its \<open>int\<close> status together with the structure behind the pointer as the call leaves it.
  The allocator is taken to succeed (the source does not test its result).
\<close>

subsection \<open>Types and status codes\<close>

type_synonym RendezvousHasherHash = "32 word"
type_synonym RendezvousHasherId = "32 word"

definition RENDEZVOUS_HASHER_OK :: int where
  "RENDEZVOUS_HASHER_OK = 0"

definition RENDEZVOUS_HASHER_ERROR_IS_NULL :: int where
  "RENDEZVOUS_HASHER_ERROR_IS_NULL = - 1"

definition RENDEZVOUS_HASHER_ERROR_ARGUMENT_NULL :: int where
  "RENDEZVOUS_HASHER_ERROR_ARGUMENT_NULL = - 2"

record RendezvousHasher =
  nodes :: "RendezvousHasherId list"

subsection \<open>The built-in hash\<close>

text \<open>The five assignments to \<open>a\<close> of \<open>rendezvous_hasher_hash_uint32\<close>, in order.\<close>

definition rendezvous_hasher_hash_uint32 :: "32 word \<Rightarrow> 32 word" where
  "rendezvous_hasher_hash_uint32 a0 =
     (let a1 = (a0 XOR 61) XOR (drop_bit 16 a0);
          a2 = a1 + (push_bit 3 a1);
          a3 = a2 XOR (drop_bit 4 a2);
          a4 = a3 * 0x27d4eb2d;
          a5 = a4 XOR (drop_bit 15 a4)
      in a5)"

definition RENDEZVOUS_HASHER_HASH :: "RendezvousHasherId \<Rightarrow> RendezvousHasherHash" where
  "RENDEZVOUS_HASHER_HASH = rendezvous_hasher_hash_uint32"

subsection \<open>Initialisation and teardown\<close>

definition rendezvous_init :: "RendezvousHasher option \<Rightarrow> int \<times> RendezvousHasher option" where
  "rendezvous_init rh =
     (case rh of
        None \<Rightarrow> (RENDEZVOUS_HASHER_ERROR_IS_NULL, None)
      | Some r \<Rightarrow> (RENDEZVOUS_HASHER_OK, Some (r\<lparr>nodes := []\<rparr>)))"

text \<open>
  The loop of \<open>rendezvous_free\<close>: it releases the cell at \<open>it\<close> and moves to the next one
  until \<open>it\<close> is \<open>NULL\<close>. The value is the final \<open>it\<close>.
\<close>

fun free_loop :: "RendezvousHasherId list \<Rightarrow> RendezvousHasherId list" where
  "free_loop [] = []"
| "free_loop (x # next) = free_loop next"

definition rendezvous_free :: "RendezvousHasher option \<Rightarrow> int \<times> RendezvousHasher option" where
  "rendezvous_free rh =
     (case rh of
        None \<Rightarrow> (RENDEZVOUS_HASHER_ERROR_IS_NULL, None)
      | Some r \<Rightarrow>
          (let it = free_loop (nodes r)
           in (RENDEZVOUS_HASHER_OK, Some (r\<lparr>nodes := []\<rparr>))))"

subsection \<open>Adding and removing nodes\<close>

definition rendezvous_add_node ::
  "RendezvousHasher option \<Rightarrow> RendezvousHasherId \<Rightarrow> int \<times> RendezvousHasher option" where
  "rendezvous_add_node rh ident =
     (case rh of
        None \<Rightarrow> (RENDEZVOUS_HASHER_ERROR_IS_NULL, None)
      | Some r \<Rightarrow> (RENDEZVOUS_HASHER_OK, Some (r\<lparr>nodes := ident # nodes r\<rparr>)))"

text \<open>
  The scan of \<open>rendezvous_remove_node\<close>. \<open>before\<close> holds the cells already passed, in list
  order, so that \<open>prev\<close> is its last cell and \<open>prev == NULL\<close> means \<open>before = []\<close>; the second
  list is the list from \<open>it\<close> on. The value is \<open>before\<close>, the list at \<open>it\<close> and \<open>found\<close> when
  the loop ends.
\<close>

fun remove_scan ::
  "RendezvousHasherId \<Rightarrow> RendezvousHasherId list \<Rightarrow> RendezvousHasherId list \<Rightarrow>
   RendezvousHasherId list \<times> RendezvousHasherId list \<times> bool" where
  "remove_scan ident before [] = (before, [], False)"
| "remove_scan ident before (x # next) =
     (if x = ident then (before, x # next, True)
      else remove_scan ident (before @ [x]) next)"

text \<open>
  After the scan: when the match is the head (\<open>prev == NULL\<close>) the source releases the head
  cell and stores \<open>NULL\<close> in \<open>rh->nodes\<close>; otherwise it links \<open>prev\<close> to the cell after \<open>it\<close>.
\<close>

definition rendezvous_remove_node ::
  "RendezvousHasher option \<Rightarrow> RendezvousHasherId \<Rightarrow> int \<times> RendezvousHasher option" where
  "rendezvous_remove_node rh ident =
     (case rh of
        None \<Rightarrow> (RENDEZVOUS_HASHER_ERROR_IS_NULL, None)
      | Some r \<Rightarrow>
          (if nodes r = [] then (RENDEZVOUS_HASHER_OK, Some r)
           else
             (case remove_scan ident [] (nodes r) of
                (before, it, found) \<Rightarrow>
                  (if found then
                     (if before = [] then (RENDEZVOUS_HASHER_OK, Some (r\<lparr>nodes := []\<rparr>))
                      else (RENDEZVOUS_HASHER_OK, Some (r\<lparr>nodes := before @ tl it\<rparr>)))
                   else (RENDEZVOUS_HASHER_OK, Some r)))))"

subsection \<open>Selection\<close>

text \<open>
  The loop of \<open>rendezvous_get_node_for\<close> over the list at \<open>it\<close>, carrying \<open>max_hash\<close> and
  \<open>chosen_node_id\<close>. The hash is a parameter of the loop, as it is a macro of the header.
\<close>

fun get_node_loop ::
  "(RendezvousHasherId \<Rightarrow> RendezvousHasherHash) \<Rightarrow> RendezvousHasherId \<Rightarrow>
   RendezvousHasherId list \<Rightarrow> RendezvousHasherHash \<times> RendezvousHasherId \<Rightarrow>
   RendezvousHasherHash \<times> RendezvousHasherId" where
  "get_node_loop H item_id [] (max_hash, chosen_node_id) = (max_hash, chosen_node_id)"
| "get_node_loop H item_id (node_id # next) (max_hash, chosen_node_id) =
     (let id_sum = node_id + item_id;
          id_sum_hash = H id_sum
      in if id_sum_hash > max_hash
         then get_node_loop H item_id next (id_sum_hash, node_id)
         else get_node_loop H item_id next (max_hash, chosen_node_id))"

text \<open>
  The output parameter \<open>node_id\<close> is an option as well: \<open>None\<close> is the null pointer,
  \<open>Some v\<close> a location holding \<open>v\<close>. The third component of the value is that location
  after the call.
\<close>

definition rendezvous_get_node_for ::
  "RendezvousHasher option \<Rightarrow> RendezvousHasherId \<Rightarrow> RendezvousHasherId option \<Rightarrow>
   int \<times> RendezvousHasher option \<times> RendezvousHasherId option" where
  "rendezvous_get_node_for rh item_id node_id =
     (case rh of
        None \<Rightarrow> (RENDEZVOUS_HASHER_ERROR_IS_NULL, None, node_id)
      | Some r \<Rightarrow>
          (case node_id of
             None \<Rightarrow> (RENDEZVOUS_HASHER_ERROR_ARGUMENT_NULL, Some r, None)
           | Some old \<Rightarrow>
               (case get_node_loop RENDEZVOUS_HASHER_HASH item_id (nodes r) (0, 0) of
                  (max_hash, chosen_node_id) \<Rightarrow>
                    (RENDEZVOUS_HASHER_OK, Some r, Some chosen_node_id))))"

subsection \<open>The set-up of the test program\<close>

text \<open>
  Lines 47 to 52 of \<open>main\<close> in test.c: a local \<open>rh\<close> of any content is initialised and the
  nodes 6969, 420 and 7777 are added in this order. The value is the structure afterwards.
\<close>

definition test_registry :: "RendezvousHasher \<Rightarrow> RendezvousHasher option" where
  "test_registry rh =
     (let s0 = snd (rendezvous_init (Some rh));
          s1 = snd (rendezvous_add_node s0 6969);
          s2 = snd (rendezvous_add_node s1 420);
          s3 = snd (rendezvous_add_node s2 7777)
      in s3)"

section \<open>Properties of the loops\<close>

subsection \<open>The selection loop, for any hash\<close>

lemma get_node_loop_append:
  "get_node_loop H k (xs @ ys) a = get_node_loop H k ys (get_node_loop H k xs a)"
proof (induction xs arbitrary: a)
  case Nil
  show ?case by (cases a) simp
next
  case (Cons x xs)
  show ?case by (cases a) (simp add: Let_def Cons.IH)
qed

lemma get_node_loop_no_greater:
  "\<forall>x\<in>set xs. H (x + k) \<le> m \<Longrightarrow> get_node_loop H k xs (m, c) = (m, c)"
  by (induction xs) (auto simp: Let_def not_less [symmetric])

lemma get_node_loop_some_greater:
  "\<exists>x\<in>set xs. m < H (x + k) \<Longrightarrow> m' \<le> m \<Longrightarrow>
   get_node_loop H k xs (m, c) = get_node_loop H k xs (m', c')"
proof (induction xs arbitrary: m c m' c')
  case Nil
  then show ?case by simp
next
  case (Cons x xs)
  show ?case
  proof (cases "m < H (x + k)")
    case True
    with Cons.prems show ?thesis by (auto simp: Let_def)
  next
    case False
    with Cons.prems have ex: "\<exists>y\<in>set xs. m < H (y + k)" by auto
    show ?thesis
    proof (cases "m' < H (x + k)")
      case True
      from False have "H (x + k) \<le> m" by simp
      from Cons.IH [OF ex this] show ?thesis using False True by (simp add: Let_def)
    next
      case no: False
      from Cons.IH [OF ex Cons.prems(2)] show ?thesis using False no by (simp add: Let_def)
    qed
  qed
qed

lemma get_node_loop_chosen_mem:
  "snd (get_node_loop H k xs (m, c)) \<in> insert c (set xs)"
  by (induction xs arbitrary: m c) (auto simp: Let_def)

lemma get_node_loop_max_below:
  "m < b \<Longrightarrow> \<forall>x\<in>set xs. H (x + k) < b \<Longrightarrow> fst (get_node_loop H k xs (m, c)) < b"
  by (induction xs arbitrary: m c) (auto simp: Let_def)

lemma loop_chosen_cases:
  "get_node_loop H k xs (m, c) = (m', c') \<Longrightarrow>
   (m', c') = (m, c) \<or> (c' \<in> set xs \<and> m' = H (c' + k) \<and> m < m')"
proof (induction xs arbitrary: m c)
  case Nil
  then show ?case by simp
next
  case (Cons x xs)
  show ?case
  proof (cases "m < H (x + k)")
    case True
    with Cons.prems have "get_node_loop H k xs (H (x + k), x) = (m', c')"
      by (simp add: Let_def)
    from Cons.IH [OF this] True show ?thesis by auto
  next
    case False
    with Cons.prems have "get_node_loop H k xs (m, c) = (m', c')"
      by (simp add: Let_def)
    from Cons.IH [OF this] show ?thesis by auto
  qed
qed

lemma get_node_for_select:
  "rendezvous_get_node_for (Some r) k (Some v) =
     (RENDEZVOUS_HASHER_OK, Some r, Some (snd (get_node_loop RENDEZVOUS_HASHER_HASH k (nodes r) (0, 0))))"
  by (simp add: rendezvous_get_node_for_def split: prod.splits)

lemma loop_add_stable:
  assumes "snd (get_node_loop H k (d # xs) (0, 0)) \<noteq> d"
  shows "get_node_loop H k (d # xs) (0, 0) = get_node_loop H k xs (0, 0)"
proof (cases "0 < H (d + k)")
  case False
  then show ?thesis by (simp add: Let_def)
next
  case True
  show ?thesis
  proof (cases "\<exists>x\<in>set xs. H (d + k) < H (x + k)")
    case ex: True
    from get_node_loop_some_greater [OF ex, of 0 d 0] True show ?thesis
      by (simp add: Let_def)
  next
    case False
    then have "\<forall>x\<in>set xs. H (x + k) \<le> H (d + k)" by (simp add: not_less)
    from get_node_loop_no_greater [OF this] True assms show ?thesis
      by (simp add: Let_def)
  qed
qed

lemma loop_remove_stable:
  assumes "snd (get_node_loop H k (xs @ c # ys) a) \<noteq> c"
  shows "get_node_loop H k (xs @ ys) a = get_node_loop H k (xs @ c # ys) a"
proof -
  obtain m n where b: "get_node_loop H k xs a = (m, n)" by (cases "get_node_loop H k xs a")
  show ?thesis
  proof (cases "m < H (c + k)")
    case False
    with b show ?thesis by (simp add: get_node_loop_append Let_def)
  next
    case True
    show ?thesis
    proof (cases "\<exists>y\<in>set ys. H (c + k) < H (y + k)")
      case ex: True
      from True have "m \<le> H (c + k)" by simp
      from get_node_loop_some_greater [OF ex this, of c n] b True show ?thesis
        by (simp add: get_node_loop_append Let_def)
    next
      case False
      then have "\<forall>y\<in>set ys. H (y + k) \<le> H (c + k)" by (simp add: not_less)
      from get_node_loop_no_greater [OF this] True assms b show ?thesis
        by (simp add: get_node_loop_append Let_def)
    qed
  qed
qed

lemma loop_strict_max:
  assumes "n \<in> set xs" and "0 < H (n + k)"
    and "\<forall>x\<in>set xs. x \<noteq> n \<longrightarrow> H (x + k) < H (n + k)"
  shows "get_node_loop H k xs (0, c) = (H (n + k), n)"
proof -
  from assms(1) obtain ys zs where sp: "xs = ys @ n # zs" "n \<notin> set ys"
    by (auto dest: split_list_first)
  obtain m c' where b: "get_node_loop H k ys (0, c) = (m, c')"
    by (cases "get_node_loop H k ys (0, c)")
  from sp assms(3) have "\<forall>x\<in>set ys. H (x + k) < H (n + k)" by auto
  from get_node_loop_max_below [OF assms(2) this, of c] b have lt: "m < H (n + k)" by simp
  from sp assms(3) have "\<forall>x\<in>set zs. H (x + k) \<le> H (n + k)" 
    by (metis Un_iff insert_iff list.set(2) order_less_imp_le order_refl set_append)
  from get_node_loop_no_greater [OF this] lt b sp show ?thesis
    by (simp add: get_node_loop_append Let_def)
qed

lemma loop_zero_scores:
  "\<forall>x\<in>set xs. H (x + k) = 0 \<Longrightarrow> get_node_loop H k xs (0, c) = (0, c)"
  by (rule get_node_loop_no_greater) simp

subsection \<open>The removal scan\<close>

lemma remove_scan_absent:
  "ident \<notin> set xs \<Longrightarrow> remove_scan ident before xs = (before @ xs, [], False)"
  by (induction xs arbitrary: before) auto

lemma remove_scan_present:
  "ident \<notin> set xs \<Longrightarrow>
   remove_scan ident before (xs @ ident # ys) = (before @ xs, ident # ys, True)"
  by (induction xs arbitrary: before) auto

lemma remove_node_head:
  "rendezvous_remove_node (Some r) ident = (RENDEZVOUS_HASHER_OK, Some (r\<lparr>nodes := []\<rparr>))"
  if "nodes r = ident # ys"
  using that by (simp add: rendezvous_remove_node_def)

lemma remove_node_inner:
  assumes "nodes r = xs @ ident # ys" and "ident \<notin> set xs" and "xs \<noteq> []"
  shows "rendezvous_remove_node (Some r) ident =
           (RENDEZVOUS_HASHER_OK, Some (r\<lparr>nodes := xs @ ys\<rparr>))"
  using assms by (simp add: rendezvous_remove_node_def remove_scan_present)

lemma remove_node_absent:
  assumes "ident \<notin> set (nodes r)"
  shows "rendezvous_remove_node (Some r) ident = (RENDEZVOUS_HASHER_OK, Some r)"
  using assms by (simp add: rendezvous_remove_node_def remove_scan_absent)

lemma remove_node_remove1:
  assumes "nodes r \<noteq> []" and "hd (nodes r) \<noteq> ident"
  shows "rendezvous_remove_node (Some r) ident =
           (RENDEZVOUS_HASHER_OK, Some (r\<lparr>nodes := remove1 ident (nodes r)\<rparr>))"
proof (cases "ident \<in> set (nodes r)")
  case False
  then show ?thesis by (simp add: remove_node_absent remove1_idem)
next
  case True
  then obtain xs ys where sp: "nodes r = xs @ ident # ys" "ident \<notin> set xs"
    by (auto dest: split_list_first)
  with assms have "xs \<noteq> []" by (cases xs) auto
  with sp show ?thesis by (simp add: remove_node_inner remove1_append)
qed

subsection \<open>The test registry and the built-in hash on it\<close>

lemma test_registry_nodes: "test_registry rh = Some (rh\<lparr>nodes := [7777, 420, 6969]\<rparr>)"
  by (simp add: test_registry_def rendezvous_init_def rendezvous_add_node_def)

lemma hash_values:
  "RENDEZVOUS_HASHER_HASH 7900 = 3087835440"
  "RENDEZVOUS_HASHER_HASH 543 = 543053201"
  "RENDEZVOUS_HASHER_HASH 7092 = 115447807"
  "RENDEZVOUS_HASHER_HASH 8233 = 955724157"
  "RENDEZVOUS_HASHER_HASH 876 = 3909962413"
  "RENDEZVOUS_HASHER_HASH 7425 = 32911045"
  "RENDEZVOUS_HASHER_HASH 23756051 = 1501231406"
  "RENDEZVOUS_HASHER_HASH 23748694 = 745895951"
  "RENDEZVOUS_HASHER_HASH 23755243 = 2598855005"
  by (simp_all add: RENDEZVOUS_HASHER_HASH_def rendezvous_hasher_hash_uint32_def Let_def)

lemma hash_61: "RENDEZVOUS_HASHER_HASH 61 = 0"
  by (simp add: RENDEZVOUS_HASHER_HASH_def rendezvous_hasher_hash_uint32_def Let_def)

section \<open>Node changes and the assignment of keys\<close>

text \<open>
  What a change of the registry does to the node selected for a key. Adding a node either
  captures the key or leaves its node as it was.
\<close>

lemma add_node_keeps_assignment:
  assumes "snd (snd (rendezvous_get_node_for (snd (rendezvous_add_node (Some r) d)) k (Some v)))
             \<noteq> Some d"
  shows "snd (snd (rendezvous_get_node_for (snd (rendezvous_add_node (Some r) d)) k (Some v)))
           = snd (snd (rendezvous_get_node_for (Some r) k (Some v)))"
proof -
  from assms have "snd (get_node_loop RENDEZVOUS_HASHER_HASH k (d # nodes r) (0, 0)) \<noteq> d"
    by (simp add: rendezvous_add_node_def get_node_for_select)
  from loop_add_stable [OF this] show ?thesis
    by (simp add: rendezvous_add_node_def get_node_for_select)
qed

text \<open>
  Removing a node whose first occurrence is not the head of the list takes exactly that
  occurrence out, and a key selected for another node keeps it.
\<close>

lemma remove_inner_node_keeps_assignment:
  assumes "nodes r \<noteq> []" and "hd (nodes r) \<noteq> c"
    and "snd (snd (rendezvous_get_node_for (Some r) k (Some v))) \<noteq> Some c"
  shows "snd (snd (rendezvous_get_node_for (snd (rendezvous_remove_node (Some r) c)) k (Some v)))
           = snd (snd (rendezvous_get_node_for (Some r) k (Some v)))"
proof (cases "c \<in> set (nodes r)")
  case False
  then show ?thesis by (simp add: remove_node_absent)
next
  case True
  then obtain xs ys where sp: "nodes r = xs @ c # ys" "c \<notin> set xs"
    by (auto dest: split_list_first)
  with assms(1,2) have ne: "xs \<noteq> []" by (cases xs) auto
  from assms(3) sp have "snd (get_node_loop RENDEZVOUS_HASHER_HASH k (xs @ c # ys) (0, 0)) \<noteq> c"
    by (simp add: get_node_for_select)
  from loop_remove_stable [OF this] sp ne show ?thesis
    by (simp add: remove_node_inner get_node_for_select)
qed

text \<open>
  Removing the id at the head of the list stores \<open>NULL\<close> in \<open>rh->nodes\<close>, so that every
  later selection yields 0, whatever the rest of the list was.
\<close>

lemma remove_head_node_selects_zero:
  assumes "nodes r = c # ys"
  shows "rendezvous_get_node_for (snd (rendezvous_remove_node (Some r) c)) k (Some v)
           = (RENDEZVOUS_HASHER_OK, Some (r\<lparr>nodes := []\<rparr>), Some 0)"
  using assms by (simp add: remove_node_head get_node_for_select)

section \<open>The claims\<close>

text \<open>
  C1 (minimal disruption): a single addition or removal should move only the keys of the
  added or removed node. For additions and for removals past the head this is
  \<open>add_node_keeps_assignment\<close> and \<open>remove_inner_node_keeps_assignment\<close>. The source breaks
  it when the removed node is the head of the list: on the registry of the test program,
  key 456 is assigned to node 420; removing node 7777, the head, empties the whole list,
  and key 456 is then assigned to 0 although its node 420 was not the one removed.
\<close>

theorem remove_head_disrupts_other_keys:
  "rendezvous_get_node_for (test_registry rh) 456 (Some v) =
     (RENDEZVOUS_HASHER_OK, test_registry rh, Some 420)
   \<and> rendezvous_remove_node (test_registry rh) 7777 =
     (RENDEZVOUS_HASHER_OK, Some (rh\<lparr>nodes := []\<rparr>))
   \<and> rendezvous_get_node_for (snd (rendezvous_remove_node (test_registry rh) 7777)) 456 (Some v) =
     (RENDEZVOUS_HASHER_OK, Some (rh\<lparr>nodes := []\<rparr>), Some 0)"
  by (simp add: test_registry_nodes get_node_for_select remove_node_head hash_values Let_def)

text \<open>
  C2 (removal takes out one entry and keeps all others): past the head this is
  \<open>remove_node_remove1\<close>. The source breaks it at the head: on the registry of the test
  program, whose list is 7777, 420, 6969, removing 7777 leaves the empty list, where
  removing the first match alone leaves 420, 6969.
\<close>

theorem remove_node_head_drops_whole_list:
  "rendezvous_remove_node (test_registry rh) 7777 =
     (RENDEZVOUS_HASHER_OK, Some (rh\<lparr>nodes := []\<rparr>))
   \<and> test_registry rh = Some (rh\<lparr>nodes := [7777, 420, 6969]\<rparr>)
   \<and> remove1 7777 [7777, 420, 6969 :: RendezvousHasherId] = [420, 6969]"
  by (simp add: test_registry_nodes remove_node_head)

text \<open>
  C3 (concrete selection scenario): on any registry whose nodes are exactly 6969, 420 and
  7777, in any order, with the built-in hash, key 123 is assigned to 7777, key 456 to 420
  and key 23748274 to 6969; each is the node whose hash of node plus key is strictly above
  that of the other two. Each call leaves the registry as it was and its result does not
  depend on what the output location held, so the three selections do not interfere.
\<close>

theorem test_scenario_selects_strict_maximum:
  assumes "set (nodes r) = {6969, 420, 7777}"
  shows "rendezvous_get_node_for (Some r) 123 (Some v1) = (RENDEZVOUS_HASHER_OK, Some r, Some 7777)
       \<and> RENDEZVOUS_HASHER_HASH (420 + 123) < RENDEZVOUS_HASHER_HASH (7777 + 123)
       \<and> RENDEZVOUS_HASHER_HASH (6969 + 123) < RENDEZVOUS_HASHER_HASH (7777 + 123)
       \<and> rendezvous_get_node_for (Some r) 456 (Some v2) = (RENDEZVOUS_HASHER_OK, Some r, Some 420)
       \<and> RENDEZVOUS_HASHER_HASH (6969 + 456) < RENDEZVOUS_HASHER_HASH (420 + 456)
       \<and> RENDEZVOUS_HASHER_HASH (7777 + 456) < RENDEZVOUS_HASHER_HASH (420 + 456)
       \<and> rendezvous_get_node_for (Some r) 23748274 (Some v3) =
           (RENDEZVOUS_HASHER_OK, Some r, Some 6969)
       \<and> RENDEZVOUS_HASHER_HASH (420 + 23748274) < RENDEZVOUS_HASHER_HASH (6969 + 23748274)
       \<and> RENDEZVOUS_HASHER_HASH (7777 + 23748274) < RENDEZVOUS_HASHER_HASH (6969 + 23748274)"
proof -
  have a: "get_node_loop RENDEZVOUS_HASHER_HASH 123 (nodes r) (0, 0) =
             (RENDEZVOUS_HASHER_HASH (7777 + 123), 7777)"
    by (rule loop_strict_max) (simp_all add: assms hash_values)
  have b: "get_node_loop RENDEZVOUS_HASHER_HASH 456 (nodes r) (0, 0) =
             (RENDEZVOUS_HASHER_HASH (420 + 456), 420)"
    by (rule loop_strict_max) (simp_all add: assms hash_values)
  have c: "get_node_loop RENDEZVOUS_HASHER_HASH 23748274 (nodes r) (0, 0) =
             (RENDEZVOUS_HASHER_HASH (6969 + 23748274), 6969)"
    by (rule loop_strict_max) (simp_all add: assms hash_values)
  show ?thesis
    by (simp add: get_node_for_select a b c) (simp add: hash_values)
qed

theorem test_scenario_selects_strict_maximum_witness:
  "set (nodes \<lparr>nodes = [7777, 420, 6969]\<rparr>) = {6969, 420, 7777}
   \<and> rendezvous_get_node_for (Some \<lparr>nodes = [7777, 420, 6969]\<rparr>) 123 (Some 0) =
       (RENDEZVOUS_HASHER_OK, Some \<lparr>nodes = [7777, 420, 6969]\<rparr>, Some 7777)
   \<and> rendezvous_get_node_for (Some \<lparr>nodes = [7777, 420, 6969]\<rparr>) 456 (Some 0) =
       (RENDEZVOUS_HASHER_OK, Some \<lparr>nodes = [7777, 420, 6969]\<rparr>, Some 420)
   \<and> rendezvous_get_node_for (Some \<lparr>nodes = [7777, 420, 6969]\<rparr>) 23748274 (Some 0) =
       (RENDEZVOUS_HASHER_OK, Some \<lparr>nodes = [7777, 420, 6969]\<rparr>, Some 6969)"
proof -
  have h: "set (nodes \<lparr>nodes = [7777, 420, 6969]\<rparr>) = {6969, 420, 7777 :: 32 word}" by auto
  from test_scenario_selects_strict_maximum [OF h, of 0 0 0] h show ?thesis by blast
qed

text \<open>
  C4 (determinism): a call of \<open>rendezvous_get_node_for\<close> leaves the registry as it found
  it, and its result does not depend on what the output location held before. So a second
  call with the same arguments, made in the state the first one left, returns what the
  first returned; so do \<open>N\<close> further calls, each made in the state left by the one before;
  and so does a call made after a selection for some other key.
\<close>

theorem get_node_for_deterministic:
  "rendezvous_get_node_for (fst (snd (rendezvous_get_node_for rh item_id node_id))) item_id
       (snd (snd (rendezvous_get_node_for rh item_id node_id)))
     = rendezvous_get_node_for rh item_id node_id
   \<and> ((\<lambda>(status, rh', node_id'). rendezvous_get_node_for rh' item_id node_id') ^^ N)
       (rendezvous_get_node_for rh item_id node_id)
     = rendezvous_get_node_for rh item_id node_id
   \<and> fst (snd (rendezvous_get_node_for rh other_id node_id)) = rh
   \<and> rendezvous_get_node_for (fst (snd (rendezvous_get_node_for rh other_id node_id))) item_id
       (snd (snd (rendezvous_get_node_for rh other_id node_id)))
     = rendezvous_get_node_for rh item_id node_id"
proof -
  have unchanged: "fst (snd (rendezvous_get_node_for rh k node_id)) = rh" for k
    by (simp add: rendezvous_get_node_for_def split: option.splits prod.splits)
  have again: "rendezvous_get_node_for rh item_id (snd (snd (rendezvous_get_node_for rh k node_id)))
     = rendezvous_get_node_for rh item_id node_id" for k
    by (simp add: rendezvous_get_node_for_def split: option.splits prod.splits)
  have step: "(\<lambda>(status, rh', node_id'). rendezvous_get_node_for rh' item_id node_id')
       (rendezvous_get_node_for rh item_id node_id) = rendezvous_get_node_for rh item_id node_id"
    using unchanged [of item_id] again [of item_id] by (simp add: case_prod_beta)
  have iter: "((\<lambda>(status, rh', node_id'). rendezvous_get_node_for rh' item_id node_id') ^^ N)
       (rendezvous_get_node_for rh item_id node_id) = rendezvous_get_node_for rh item_id node_id"
    by (induction N) (simp_all add: step)
  show ?thesis using unchanged again iter by simp
qed

text \<open>
  C5 (concrete removal scenario): the registry of the test program holds 7777, 420, 6969;
  removing 420 succeeds and leaves exactly 7777 and 6969; after that every selection, for
  any key, succeeds and stores 0, 7777 or 6969, hence never 420.
\<close>

theorem remove_420_scenario:
  "test_registry rh = Some (rh\<lparr>nodes := [7777, 420, 6969]\<rparr>)
   \<and> rendezvous_remove_node (test_registry rh) 420 =
       (RENDEZVOUS_HASHER_OK, Some (rh\<lparr>nodes := [7777, 6969]\<rparr>))
   \<and> fst (rendezvous_get_node_for (Some (rh\<lparr>nodes := [7777, 6969]\<rparr>)) item_id (Some v)) =
       RENDEZVOUS_HASHER_OK
   \<and> snd (snd (rendezvous_get_node_for (Some (rh\<lparr>nodes := [7777, 6969]\<rparr>)) item_id (Some v)))
       \<in> {Some 0, Some 7777, Some 6969}
   \<and> snd (snd (rendezvous_get_node_for (Some (rh\<lparr>nodes := [7777, 6969]\<rparr>)) item_id (Some v)))
       \<noteq> Some 420"
proof -
  have rm: "rendezvous_remove_node (test_registry rh) 420 =
       (RENDEZVOUS_HASHER_OK, Some (rh\<lparr>nodes := [7777, 6969]\<rparr>))"
    using remove_node_inner [of "rh\<lparr>nodes := [7777, 420, 6969]\<rparr>" "[7777]" 420 "[6969]"]
    by (simp add: test_registry_nodes)
  have mem: "snd (get_node_loop RENDEZVOUS_HASHER_HASH item_id [7777, 6969] (0, 0))
      \<in> insert 0 (set [7777, 6969])"
    by (rule get_node_loop_chosen_mem)
  then have "snd (get_node_loop RENDEZVOUS_HASHER_HASH item_id [7777, 6969] (0, 0)) \<noteq> 420"
    by auto
  with mem rm show ?thesis
    by (simp add: get_node_for_select test_registry_nodes)
qed

text \<open>
  C6 (empty registry): on a registry without nodes, and so on a freshly initialised one,
  \<open>rendezvous_get_node_for\<close> succeeds and stores 0 in the output location, whatever the
  location held before.
\<close>

theorem get_node_for_empty_registry:
  "rendezvous_get_node_for (Some (rh\<lparr>nodes := []\<rparr>)) item_id (Some v) =
     (RENDEZVOUS_HASHER_OK, Some (rh\<lparr>nodes := []\<rparr>), Some 0)
   \<and> rendezvous_get_node_for (snd (rendezvous_init (Some rh))) item_id (Some v) =
     (RENDEZVOUS_HASHER_OK, snd (rendezvous_init (Some rh)), Some 0)"
  by (simp add: rendezvous_get_node_for_def rendezvous_init_def)

text \<open>
  C7 (idempotent teardown): \<open>rendezvous_free\<close> succeeds on every registry and leaves it
  without nodes; a second call on what the first left succeeds as well and leaves the same
  empty registry, as does any call on a registry that is already empty.
\<close>

theorem rendezvous_free_idempotent:
  "rendezvous_free (Some rh) = (RENDEZVOUS_HASHER_OK, Some (rh\<lparr>nodes := []\<rparr>))
   \<and> rendezvous_free (snd (rendezvous_free (Some rh))) =
       (RENDEZVOUS_HASHER_OK, Some (rh\<lparr>nodes := []\<rparr>))
   \<and> rendezvous_free (Some (rh\<lparr>nodes := []\<rparr>)) =
       (RENDEZVOUS_HASHER_OK, Some (rh\<lparr>nodes := []\<rparr>))"
  by (simp add: rendezvous_free_def)

text \<open>
  C8 (removing an id that is not present): when no entry of the registry has the id,
  \<open>rendezvous_remove_node\<close> succeeds and the registry is what it was.
\<close>

theorem remove_node_not_present_is_noop:
  "ident \<notin> set (nodes rh) \<Longrightarrow>
   rendezvous_remove_node (Some rh) ident = (RENDEZVOUS_HASHER_OK, Some rh)"
  by (rule remove_node_absent)

theorem remove_node_not_present_is_noop_witness:
  "(5 :: RendezvousHasherId) \<notin> set (nodes \<lparr>nodes = [7777, 420, 6969]\<rparr>)
   \<and> rendezvous_remove_node (Some \<lparr>nodes = [7777, 420, 6969]\<rparr>) 5 =
       (RENDEZVOUS_HASHER_OK, Some \<lparr>nodes = [7777, 420, 6969]\<rparr>)"
proof -
  have h: "(5 :: RendezvousHasherId) \<notin> set (nodes \<lparr>nodes = [7777, 420, 6969]\<rparr>)" by simp
  from remove_node_not_present_is_noop [OF h] h show ?thesis by blast
qed

text \<open>
  C9 (fail fast): each of the five operations, called with a null registry pointer, returns
  \<open>RENDEZVOUS_HASHER_ERROR_IS_NULL\<close> (-1) and changes nothing, the output location of
  \<open>rendezvous_get_node_for\<close> included; \<open>rendezvous_get_node_for\<close> called on a registry with
  a null output pointer returns \<open>RENDEZVOUS_HASHER_ERROR_ARGUMENT_NULL\<close> (-2) and leaves the
  registry as it was.
\<close>

theorem null_arguments_fail_fast:
  "rendezvous_init None = (RENDEZVOUS_HASHER_ERROR_IS_NULL, None)
   \<and> rendezvous_free None = (RENDEZVOUS_HASHER_ERROR_IS_NULL, None)
   \<and> rendezvous_add_node None ident = (RENDEZVOUS_HASHER_ERROR_IS_NULL, None)
   \<and> rendezvous_remove_node None ident = (RENDEZVOUS_HASHER_ERROR_IS_NULL, None)
   \<and> rendezvous_get_node_for None item_id node_id = (RENDEZVOUS_HASHER_ERROR_IS_NULL, None, node_id)
   \<and> rendezvous_get_node_for (Some rh) item_id None =
       (RENDEZVOUS_HASHER_ERROR_ARGUMENT_NULL, Some rh, None)
   \<and> RENDEZVOUS_HASHER_ERROR_IS_NULL = - 1
   \<and> RENDEZVOUS_HASHER_ERROR_ARGUMENT_NULL = - 2"
  by (simp add: rendezvous_init_def rendezvous_free_def rendezvous_add_node_def
      rendezvous_remove_node_def rendezvous_get_node_for_def
      RENDEZVOUS_HASHER_ERROR_IS_NULL_def RENDEZVOUS_HASHER_ERROR_ARGUMENT_NULL_def)

text \<open>
  C10 (a score of 0 never wins): the running maximum starts at 0 and is replaced only by a
  strictly greater score. So the loop never writes a node whose score for the key is 0 into
  \<open>chosen_node_id\<close>, whatever value \<open>c\<close> that variable starts from; with the start value 0
  of the source, the call never stores such a node other than 0. On a registry, empty or
  not, where every node scores 0 for the key, the loop leaves \<open>max_hash\<close> and
  \<open>chosen_node_id\<close> at their start values, and the call succeeds and stores 0. The built-in
  hash is 0 at 61, so the nodes 60, 60 with key 1 are such a registry.
\<close>

theorem zero_score_never_selected:
  "(RENDEZVOUS_HASHER_HASH (n + item_id) = 0 \<and> n \<noteq> c \<longrightarrow>
      snd (get_node_loop RENDEZVOUS_HASHER_HASH item_id (nodes rh) (0, c)) \<noteq> n)
   \<and> (RENDEZVOUS_HASHER_HASH (n + item_id) = 0 \<and> n \<noteq> 0 \<longrightarrow>
      snd (snd (rendezvous_get_node_for (Some rh) item_id (Some v))) \<noteq> Some n)
   \<and> ((\<forall>x\<in>set (nodes rh). RENDEZVOUS_HASHER_HASH (x + item_id) = 0) \<longrightarrow>
      get_node_loop RENDEZVOUS_HASHER_HASH item_id (nodes rh) (0, c) = (0, c)
      \<and> rendezvous_get_node_for (Some rh) item_id (Some v) =
          (RENDEZVOUS_HASHER_OK, Some rh, Some 0))"
proof -
  have never: "snd (get_node_loop RENDEZVOUS_HASHER_HASH item_id (nodes rh) (0, c')) \<noteq> n"
    if a: "RENDEZVOUS_HASHER_HASH (n + item_id) = 0" "n \<noteq> c'" for c'
  proof -
    obtain m d where b: "get_node_loop RENDEZVOUS_HASHER_HASH item_id (nodes rh) (0, c') = (m, d)"
      by (cases "get_node_loop RENDEZVOUS_HASHER_HASH item_id (nodes rh) (0, c')")
    from loop_chosen_cases [OF b] a have "d \<noteq> n" by auto
    with b show ?thesis by simp
  qed
  have zero: "get_node_loop RENDEZVOUS_HASHER_HASH item_id (nodes rh) (0, c') = (0, c')"
    if "\<forall>x\<in>set (nodes rh). RENDEZVOUS_HASHER_HASH (x + item_id) = 0" for c'
    using that by (rule loop_zero_scores)
  show ?thesis
    using never [of c] never [of 0] zero [of c] zero [of 0]
    by (simp add: get_node_for_select)
qed

theorem zero_score_never_selected_witness:
  "RENDEZVOUS_HASHER_HASH (60 + 1) = 0 \<and> (60 :: RendezvousHasherId) \<noteq> 9
   \<and> (60 :: RendezvousHasherId) \<noteq> 0
   \<and> set (nodes \<lparr>nodes = [60, 60 :: RendezvousHasherId]\<rparr>) = {60}
   \<and> nodes \<lparr>nodes = [60, 60 :: RendezvousHasherId]\<rparr> \<noteq> []
   \<and> get_node_loop RENDEZVOUS_HASHER_HASH 1 (nodes \<lparr>nodes = [60, 60]\<rparr>) (0, 9) = (0, 9)
   \<and> snd (snd (rendezvous_get_node_for (Some \<lparr>nodes = [60, 60]\<rparr>) 1 (Some 7))) \<noteq> Some 60
   \<and> rendezvous_get_node_for (Some \<lparr>nodes = [60, 60]\<rparr>) 1 (Some 7) =
       (RENDEZVOUS_HASHER_OK, Some \<lparr>nodes = [60, 60]\<rparr>, Some 0)"
proof -
  have h1: "RENDEZVOUS_HASHER_HASH (60 + 1) = 0 \<and> (60 :: RendezvousHasherId) \<noteq> 9
      \<and> (60 :: RendezvousHasherId) \<noteq> 0"
    by (simp add: hash_61)
  have h2: "\<forall>x\<in>set (nodes \<lparr>nodes = [60, 60]\<rparr>). RENDEZVOUS_HASHER_HASH (x + 1) = 0"
    by (simp add: hash_61)
  from zero_score_never_selected [of 60 1 9 "\<lparr>nodes = [60, 60]\<rparr>" 7] h1 h2
  show ?thesis by simp
qed

end
